theory Spec2Isabelle
  imports Complex_Main "HOL-Library.Word" "HOL-Library.Sublist"
begin

unbundle bit_operations_syntax

section \<open>Adaptive scale (src/utils/previewGenerator.ts, src/components/Modal3DViewer.tsx)\<close>

text \<open>
  Both variants of \<open>calculateAdaptiveScale\<close> take the largest bounding-box dimension and
  return a scale factor. The numbers of the source are modelled as reals: the claims about
  these functions (continuity, monotonicity, lower bounds) are claims about the piecewise
  function the code writes down, and the model keeps every constant, comparison and branch
  of the source in the source's order.
\<close>

definition PreviewGenerator_calculateAdaptiveScale :: "real \<Rightarrow> real" where
  "PreviewGenerator_calculateAdaptiveScale modelSize =
     (if modelSize \<le> 0 then 3
      else
        let scale =
          (if modelSize < 1 / 10 then 50
           else if modelSize < 1 then 15 + (1 - modelSize) * 35
           else if modelSize < 10 then 3 + (10 - modelSize) / 9 * 12
           else if modelSize < 100 then 1 + (100 - modelSize) / 90 * 2
           else max (1 / 2) (100 / modelSize))
        in max scale (1 / 2))"

definition Model3DViewer_calculateAdaptiveScale :: "real \<Rightarrow> real" where
  "Model3DViewer_calculateAdaptiveScale modelSize =
     (if modelSize \<le> 0 then 2
      else
        let scale =
          (if modelSize < 1 / 10 then 30
           else if modelSize < 1 then 10 + (1 - modelSize) * 20
           else if modelSize < 10 then 2 + (10 - modelSize) / 9 * 8
           else if modelSize < 100 then 8 / 10 + (100 - modelSize) / 90 * (12 / 10)
           else max (3 / 10) (80 / modelSize))
        in max scale (3 / 10))"

section \<open>Text and bytes\<close>

text \<open>
  A JavaScript string is a sequence of UTF-16 code units, modelled as a list of naturals;
  an \<open>ArrayBuffer\<close> is a list of bytes. String literals of the source are written with
  \<open>lit\<close>.
\<close>

type_synonym byte = "8 word"
type_synonym jsstring = "nat list"

definition lit :: "string \<Rightarrow> jsstring" where
  "lit s = map of_char s"

text \<open>
  The functions of the JavaScript platform that the code calls and that depend on Unicode
  tables (\<open>TextDecoder.decode\<close>, \<open>String.prototype.toLowerCase\<close>, \<open>encodeURIComponent\<close>) are parameters of the
  model, collected in a record. Every theorem below holds for every platform, except where
  a concrete input is evaluated: there \<open>ascii_platform\<close> is used, which is what
  \<open>decode\<close> and \<open>toLowerCase\<close> do on bytes and code units below 128; its
  \<open>encodeURIComponent\<close> is never reached on such inputs.
\<close>

record platform =
  decode :: "byte list \<Rightarrow> jsstring"
  toLowerCase :: "jsstring \<Rightarrow> jsstring"
  encodeURIComponent :: "jsstring \<Rightarrow> jsstring"

definition ascii_platform :: platform where
  "ascii_platform =
     \<lparr> decode = map unat,
       toLowerCase = map (\<lambda>c. if 65 \<le> c \<and> c \<le> 90 then c + 32 else c),
       encodeURIComponent = id \<rparr>"

definition bytes_of :: "string \<Rightarrow> byte list" where
  "bytes_of s = map of_char s"

text \<open>\<open>String.prototype.startsWith\<close> and \<open>includes\<close>.\<close>

definition startsWith :: "jsstring \<Rightarrow> jsstring \<Rightarrow> bool" where
  "startsWith s t = (take (length t) s = t)"

fun includes_str :: "jsstring \<Rightarrow> jsstring \<Rightarrow> bool" where
  "includes_str [] t = (t = [])"
| "includes_str (c # cs) t = (startsWith (c # cs) t \<or> includes_str cs t)"

text \<open>
  White space and line terminators of ECMAScript, the characters that \<open>trim\<close> strips and
  that \<open>\s\<close> matches.
\<close>

definition isWhiteSpace :: "nat \<Rightarrow> bool" where
  "isWhiteSpace c =
     (c \<in> {9, 10, 11, 12, 13, 32, 160, 5760, 8232, 8233, 8239, 8287, 12288, 65279}
      \<or> (8192 \<le> c \<and> c \<le> 8202))"

definition trim :: "jsstring \<Rightarrow> jsstring" where
  "trim s = rev (dropWhile isWhiteSpace (rev (dropWhile isWhiteSpace s)))"

text \<open>\<open>s.split(c)\<close> for a one-character separator: the pieces between occurrences.\<close>

fun split_char :: "nat \<Rightarrow> jsstring \<Rightarrow> jsstring list" where
  "split_char c [] = [[]]"
| "split_char c (x # xs) =
     (if x = c then [] # split_char c xs
      else (let r = split_char c xs in (x # hd r) # tl r))"

text \<open>\<open>s.split(/\s+/)\<close>: the pieces between maximal runs of white space.\<close>

fun split_ws :: "jsstring \<Rightarrow> jsstring list" where
  "split_ws [] = [[]]"
| "split_ws (x # xs) =
     (if isWhiteSpace x then
        (if xs \<noteq> [] \<and> isWhiteSpace (hd xs) then split_ws xs else [] # split_ws xs)
      else (let r = split_ws xs in (x # hd r) # tl r))"

section \<open>STL loader (src/utils/stlLoader.ts)\<close>

text \<open>
  A number stored in a geometry is kept symbolically: either the 32-bit pattern that
  \<open>DataView.getFloat32\<close> read, or the argument handed to \<open>parseFloat\<close> (\<open>None\<close> when the
  array element was \<open>undefined\<close>). No claim depends on the numeric value.
\<close>

datatype number = Float32 "32 word" | ParseFloat "jsstring option"

text \<open>
  A \<open>BufferGeometry\<close> with its two attributes of item size 3; \<open>positionCount\<close> and
  \<open>normalCount\<close> are the attributes' \<open>count\<close>, the number of stored vectors.
\<close>

record geometry =
  position :: "number list"
  normal :: "number list"

definition positionCount :: "geometry \<Rightarrow> nat" where
  "positionCount g = length (position g) div 3"

definition normalCount :: "geometry \<Rightarrow> nat" where
  "normalCount g = length (normal g) div 3"

text \<open>
  Errors thrown in the preview pipeline: the \<open>RangeError\<close> of a \<open>DataView\<close> read outside the
  buffer, an \<open>Error\<close> object with its message, and any thrown value that is not an \<open>Error\<close>.
\<close>

datatype thrown = RangeError | Error jsstring | NonError

definition isASCII :: "platform \<Rightarrow> byte list \<Rightarrow> bool" where
  "isASCII P data = includes_str (toLowerCase P (decode P (take 80 data))) (lit ''solid'')"

text \<open>\<open>parts[i]\<close> handed to \<open>parseFloat\<close>; an index past the end reads \<open>undefined\<close>.\<close>

definition parseFloat_at :: "jsstring list \<Rightarrow> nat \<Rightarrow> number" where
  "parseFloat_at parts i = ParseFloat (if i < length parts then Some (parts ! i) else None)"

text \<open>
  The loop of \<open>parseASCII\<close> over the lines, with the loop state \<open>currentNormal\<close>, \<open>vertices\<close>
  and \<open>normals\<close> as arguments.
\<close>

fun parseASCII_lines ::
  "jsstring list \<Rightarrow> (number \<times> number \<times> number) option \<Rightarrow> number list \<Rightarrow> number list
     \<Rightarrow> number list \<times> number list" where
  "parseASCII_lines [] currentNormal vertices normals = (vertices, normals)"
| "parseASCII_lines (l # ls) currentNormal vertices normals =
     (let line = trim l in
      if startsWith line (lit ''facet normal'') then
        (let parts = split_ws line in
         parseASCII_lines ls
           (Some (parseFloat_at parts 2, parseFloat_at parts 3, parseFloat_at parts 4))
           vertices normals)
      else if startsWith line (lit ''vertex'') then
        (let parts = split_ws line;
             vertices' = vertices @ [parseFloat_at parts 1, parseFloat_at parts 2, parseFloat_at parts 3];
             normals' = (case currentNormal of
                           None \<Rightarrow> normals
                         | Some (x, y, z) \<Rightarrow> normals @ [x, y, z])
         in parseASCII_lines ls currentNormal vertices' normals')
      else parseASCII_lines ls currentNormal vertices normals)"

definition parseASCII :: "jsstring \<Rightarrow> geometry" where
  "parseASCII data =
     (case parseASCII_lines (split_char 10 data) None [] [] of
        (vertices, normals) \<Rightarrow> \<lparr> position = vertices, normal = normals \<rparr>)"

text \<open>
  \<open>DataView\<close> reads, little-endian. A read that does not fit in the buffer throws
  \<open>RangeError\<close>.
\<close>

definition le32 :: "byte \<Rightarrow> byte \<Rightarrow> byte \<Rightarrow> byte \<Rightarrow> 32 word" where
  "le32 b0 b1 b2 b3 =
     ucast b0 OR push_bit 8 (ucast b1) OR push_bit 16 (ucast b2) OR push_bit 24 (ucast b3)"

definition getUint32 :: "byte list \<Rightarrow> nat \<Rightarrow> thrown + 32 word" where
  "getUint32 reader off =
     (if off + 4 \<le> length reader
      then Inr (le32 (reader ! off) (reader ! (off + 1)) (reader ! (off + 2)) (reader ! (off + 3)))
      else Inl RangeError)"

definition getFloat32 :: "byte list \<Rightarrow> nat \<Rightarrow> thrown + number" where
  "getFloat32 reader off =
     (case getUint32 reader off of Inl e \<Rightarrow> Inl e | Inr w \<Rightarrow> Inr (Float32 w))"

text \<open>The three reads at \<open>offset\<close>, \<open>offset + 4\<close> and \<open>offset + 8\<close>, in this order.\<close>

definition getVector :: "byte list \<Rightarrow> nat \<Rightarrow> thrown + number list" where
  "getVector reader off =
     (case getFloat32 reader off of
        Inl e \<Rightarrow> Inl e
      | Inr x \<Rightarrow>
          (case getFloat32 reader (off + 4) of
             Inl e \<Rightarrow> Inl e
           | Inr y \<Rightarrow>
               (case getFloat32 reader (off + 8) of
                  Inl e \<Rightarrow> Inl e
                | Inr z \<Rightarrow> Inr [x, y, z])))"

text \<open>The inner loop over \<open>j\<close>; the first argument counts the iterations that remain.\<close>

fun parseBinary_vertices ::
  "nat \<Rightarrow> byte list \<Rightarrow> nat \<Rightarrow> number list \<Rightarrow> number list \<Rightarrow> number list
     \<Rightarrow> thrown + (nat \<times> number list \<times> number list)" where
  "parseBinary_vertices 0 reader offset n vertices normals = Inr (offset, vertices, normals)"
| "parseBinary_vertices (Suc j) reader offset n vertices normals =
     (case getVector reader offset of
        Inl e \<Rightarrow> Inl e
      | Inr v \<Rightarrow> parseBinary_vertices j reader (offset + 12) n (vertices @ v) (normals @ n))"

text \<open>The outer loop over the faces; the first argument counts the faces that remain.\<close>

fun parseBinary_faces ::
  "nat \<Rightarrow> byte list \<Rightarrow> nat \<Rightarrow> number list \<Rightarrow> number list
     \<Rightarrow> thrown + (number list \<times> number list)" where
  "parseBinary_faces 0 reader offset vertices normals = Inr (vertices, normals)"
| "parseBinary_faces (Suc i) reader offset vertices normals =
     (case getVector reader offset of
        Inl e \<Rightarrow> Inl e
      | Inr n \<Rightarrow>
          (case parseBinary_vertices 3 reader (offset + 12) n vertices normals of
             Inl e \<Rightarrow> Inl e
           | Inr (offset', vertices', normals') \<Rightarrow>
               parseBinary_faces i reader (offset' + 2) vertices' normals'))"

definition parseBinary :: "byte list \<Rightarrow> thrown + geometry" where
  "parseBinary reader =
     (case getUint32 reader 80 of
        Inl e \<Rightarrow> Inl e
      | Inr faces \<Rightarrow>
          (case parseBinary_faces (unat faces) reader 84 [] [] of
             Inl e \<Rightarrow> Inl e
           | Inr (vertices, normals) \<Rightarrow> Inr \<lparr> position = vertices, normal = normals \<rparr>))"

definition parseSTL :: "platform \<Rightarrow> byte list \<Rightarrow> thrown + geometry" where
  "parseSTL P data =
     (if isASCII P data then Inr (parseASCII (decode P data)) else parseBinary data)"

text \<open>
  Vocabulary for stating what the loader returns. \<open>declaredTriangles\<close> is the unsigned
  32-bit little-endian count at bytes 80 to 83 of a binary file. For an ASCII file,
  \<open>vertexLines\<close> counts the lines that the loop of \<open>parseASCII\<close> treats as a vertex, and
  \<open>vertexLinesAfterNormal\<close> counts those of them that come after the first
  \<open>facet normal\<close> line.
\<close>

definition declaredTriangles :: "byte list \<Rightarrow> nat" where
  "declaredTriangles data = unat (le32 (data ! 80) (data ! 81) (data ! 82) (data ! 83))"

definition isFacetNormalLine :: "jsstring \<Rightarrow> bool" where
  "isFacetNormalLine l = startsWith (trim l) (lit ''facet normal'')"

definition isVertexLine :: "jsstring \<Rightarrow> bool" where
  "isVertexLine l = (\<not> isFacetNormalLine l \<and> startsWith (trim l) (lit ''vertex''))"

definition vertexLines :: "jsstring list \<Rightarrow> nat" where
  "vertexLines ls = length (filter isVertexLine ls)"

definition vertexLinesAfterNormal :: "jsstring list \<Rightarrow> nat" where
  "vertexLinesAfterNormal ls =
     length (filter isVertexLine (dropWhile (\<lambda>l. \<not> isFacetNormalLine l) ls))"

section \<open>Preview generation (src/utils/previewGenerator.ts)\<close>


section \<open>JSON.stringify and btoa\<close>

text \<open>
  The values that the hook serialises: \<open>null\<close>, integers, strings, and objects with their
  own properties in enumeration order (creation order, for the property names that occur
  here). Integer numbers are printed in decimal, as \<open>JSON.stringify\<close> prints them.
\<close>

datatype json = JNull | JNumber int | JString jsstring | JObject "(jsstring \<times> json) list"




definition hexDigit :: "nat \<Rightarrow> nat" where
  "hexDigit d = (if d < 10 then 48 + d else 87 + d)"

definition unicodeEscape :: "nat \<Rightarrow> jsstring" where
  "unicodeEscape c =
     [92, 117, hexDigit (c div 4096 mod 16), hexDigit (c div 256 mod 16),
      hexDigit (c div 16 mod 16), hexDigit (c mod 16)]"

text \<open>
  \<open>QuoteJSONString\<close>, one code unit at a time: the two-character escapes, \<open>\uXXXX\<close> for the
  other control characters and for a surrogate that is not part of a pair, and the code unit
  itself otherwise.
\<close>

definition escapeUnit :: "nat \<Rightarrow> jsstring" where
  "escapeUnit c =
     (if c = 8 then [92, 98]
      else if c = 9 then [92, 116]
      else if c = 10 then [92, 110]
      else if c = 12 then [92, 102]
      else if c = 13 then [92, 114]
      else if c = 34 then [92, 34]
      else if c = 92 then [92, 92]
      else if c < 32 \<or> (55296 \<le> c \<and> c \<le> 57343) then unicodeEscape c
      else [c])"

fun quoteUnits :: "jsstring \<Rightarrow> jsstring" where
  "quoteUnits [] = []"
| "quoteUnits [c] = escapeUnit c"
| "quoteUnits (c # d # cs) =
     (if 55296 \<le> c \<and> c \<le> 56319 \<and> 56320 \<le> d \<and> d \<le> 57343
      then c # d # quoteUnits cs
      else escapeUnit c @ quoteUnits (d # cs))"

definition quoteJSONString :: "jsstring \<Rightarrow> jsstring" where
  "quoteJSONString s = 34 # quoteUnits s @ [34]"







section \<open>The preview hook and its cache (src/hooks/useModelPreview.ts)\<close>

text \<open>The arguments of the hook.\<close>

record props =
  modelUrl :: jsstring
  cacheKey :: "jsstring option"
  previewOptions :: "json option"





text \<open>
  \<open>localStorage\<close> maps a key to the entry stored under it, as \<open>JSON.parse\<close> gives it back;
  the entries are the objects that \<open>saveToCache\<close> writes. The storage is taken to be
  available: its operations do not throw.
\<close>

record cacheData =
  dataUrl :: jsstring
  timestamp :: int
  cachedModelUrl :: jsstring
  cachedOptions :: "json option"

type_synonym storage = "jsstring \<rightharpoonup> cacheData"




text \<open>
  The state of one hook instance, and the world it runs in: the shared storage and the
  number of render sessions started so far (calls of \<open>generateModelPreview\<close>).
\<close>

record hook_state =
  previewUrl :: "jsstring option"
  isGenerating :: bool
  error :: "jsstring option"

record world =
  hook :: hook_state
  localStorage :: storage
  sessions :: nat


text \<open>
  \<open>generatePreview\<close> is an async function. Its first part runs when it is called, up to the
  call of \<open>generateModelPreview\<close>; its second part runs when that promise settles with
  \<open>outcome\<close>. The guard reads \<open>isGenerating\<close> as the closure captured it at the render that
  created the function (\<open>captured\<close>); \<open>setIsGenerating\<close> changes the state that the next
  render will see, not the captured value. The first component of the result of
  \<open>generatePreview_call\<close> tells whether a session was started.
\<close>

definition generatePreview_call :: "props \<Rightarrow> bool \<Rightarrow> world \<Rightarrow> bool \<times> world" where
  "generatePreview_call pr captured w =
     (if captured \<or> modelUrl pr = [] then (False, w)
      else (True, w\<lparr> hook := (hook w)\<lparr> isGenerating := True, error := None \<rparr>,
                      sessions := sessions w + 1 \<rparr>))"





section \<open>Decoders for the injectivity of the cache key\<close>






section \<open>Properties of the adaptive scale\<close>





section \<open>The STL loader: helper lemmas\<close>

lemma startsWith_prefix: "startsWith s t \<longleftrightarrow> prefix t s"
  unfolding startsWith_def
  by (metis append_eq_conv_conj prefix_def)

lemma includes_str_sublist: "includes_str s t \<longleftrightarrow> sublist t s"
  by (induction s) (auto simp: startsWith_prefix sublist_Cons_right)

lemma getUint32_ok: "off + 4 \<le> length reader \<Longrightarrow> \<exists>w. getUint32 reader off = Inr w"
  by (simp add: getUint32_def)

lemma getFloat32_cases:
  "getFloat32 reader off =
     (if off + 4 \<le> length reader
      then Inr (Float32 (le32 (reader ! off) (reader ! (off + 1)) (reader ! (off + 2)) (reader ! (off + 3))))
      else Inl RangeError)"
  by (simp add: getFloat32_def getUint32_def)

lemma getVector_fail: "length reader < off + 12 \<Longrightarrow> getVector reader off = Inl RangeError"
  by (simp add: getVector_def getFloat32_cases)

lemma getVector_ok:
  "off + 12 \<le> length reader \<Longrightarrow> \<exists>x y z. getVector reader off = Inr [x, y, z]"
  by (simp add: getVector_def getFloat32_cases)

lemma parseBinary_vertices_fail:
  "0 < j \<Longrightarrow> length reader < off + 12 * j \<Longrightarrow>
   parseBinary_vertices j reader off n vs ns = Inl RangeError"
proof (induction j arbitrary: off vs ns)
  case 0
  then show ?case by simp
next
  case (Suc j)
  show ?case
  proof (cases "length reader < off + 12")
    case True
    then show ?thesis by (simp add: getVector_fail)
  next
    case False
    then obtain x y z where v: "getVector reader off = Inr [x, y, z]"
      using getVector_ok [of off reader] by auto
    from False Suc.prems have "0 < j" by (cases j) auto
    moreover from Suc.prems have "length reader < (off + 12) + 12 * j" by simp
    ultimately show ?thesis using Suc.IH v by simp
  qed
qed

lemma parseBinary_vertices_ok:
  "off + 12 * j \<le> length reader \<Longrightarrow>
   \<exists>vs' ns'. parseBinary_vertices j reader off n vs ns = Inr (off + 12 * j, vs', ns')
      \<and> length vs' = length vs + 3 * j \<and> length ns' = length ns + j * length n"
proof (induction j arbitrary: off vs ns)
  case 0
  then show ?case by simp
next
  case (Suc j)
  then obtain x y z where v: "getVector reader off = Inr [x, y, z]"
    using getVector_ok [of off reader] by auto
  from Suc.prems have "(off + 12) + 12 * j \<le> length reader" by simp
  from Suc.IH [OF this, of "vs @ [x, y, z]" "ns @ n"] show ?case using v by auto
qed

lemma parseBinary_faces_fail:
  "0 < k \<Longrightarrow> length reader + 2 < off + 50 * k \<Longrightarrow>
   parseBinary_faces k reader off vs ns = Inl RangeError"
proof (induction k arbitrary: off vs ns)
  case 0
  then show ?case by simp
next
  case (Suc k)
  show ?case
  proof (cases "length reader < off + 48")
    case True
    show ?thesis
    proof (cases "length reader < off + 12")
      case True
      then show ?thesis by (simp add: getVector_fail)
    next
      case False
      then obtain x y z where v: "getVector reader off = Inr [x, y, z]"
        using getVector_ok [of off reader] by auto
      have "parseBinary_vertices 3 reader (off + 12) [x, y, z] vs ns = Inl RangeError"
        using True by (intro parseBinary_vertices_fail) auto
      then show ?thesis using v by simp
    qed
  next
    case False
    then obtain x y z where v: "getVector reader off = Inr [x, y, z]"
      using getVector_ok [of off reader] by auto
    from False have "(off + 12) + 12 * 3 \<le> length reader" by simp
    from parseBinary_vertices_ok [OF this, of "[x, y, z]" vs ns]
    obtain vs' ns' where
      p: "parseBinary_vertices 3 reader (off + 12) [x, y, z] vs ns = Inr (off + 12 + 12 * 3, vs', ns')"
      by blast
    from False Suc.prems have "0 < k" by (cases k) auto
    moreover from Suc.prems have "length reader + 2 < (off + 50) + 50 * k" by simp
    ultimately have "parseBinary_faces k reader (off + 50) vs' ns' = Inl RangeError"
      by (rule Suc.IH)
    then show ?thesis using v p by (simp add: numeral_eq_Suc)
  qed
qed

lemma parseBinary_faces_ok:
  "k = 0 \<or> off + 50 * k \<le> length reader + 2 \<Longrightarrow>
   \<exists>vs' ns'. parseBinary_faces k reader off vs ns = Inr (vs', ns')
      \<and> length vs' = length vs + 9 * k \<and> length ns' = length ns + 9 * k"
proof (induction k arbitrary: off vs ns)
  case 0
  then show ?case by simp
next
  case (Suc k)
  then have len: "off + 48 \<le> length reader" by simp
  then obtain x y z where v: "getVector reader off = Inr [x, y, z]"
    using getVector_ok [of off reader] by auto
  from len have "(off + 12) + 12 * 3 \<le> length reader" by simp
  from parseBinary_vertices_ok [OF this, of "[x, y, z]" vs ns]
  obtain vs' ns' where
    p: "parseBinary_vertices 3 reader (off + 12) [x, y, z] vs ns = Inr (off + 12 + 12 * 3, vs', ns')"
    and l: "length vs' = length vs + 9" "length ns' = length ns + 9"
    by auto
  from Suc.prems have "k = 0 \<or> (off + 50) + 50 * k \<le> length reader + 2" by simp
  from Suc.IH [OF this, of vs' ns']
  obtain vs'' ns'' where "parseBinary_faces k reader (off + 50) vs' ns' = Inr (vs'', ns'')"
    "length vs'' = length vs' + 9 * k" "length ns'' = length ns' + 9 * k"
    by blast
  then show ?case using v p l by (simp add: numeral_eq_Suc)
qed


lemma parseBinary_fails_iff:
  "parseBinary reader = Inl RangeError \<longleftrightarrow>
     length reader < 84
     \<or> (0 < declaredTriangles reader \<and> length reader + 2 < 84 + 50 * declaredTriangles reader)"
proof (cases "length reader < 84")
  case True
  then show ?thesis by (simp add: parseBinary_def getUint32_def)
next
  case False
  then have u: "getUint32 reader 80 = Inr (le32 (reader ! 80) (reader ! 81) (reader ! 82) (reader ! 83))"
    by (simp add: getUint32_def)
  show ?thesis
  proof (cases "0 < declaredTriangles reader \<and> length reader + 2 < 84 + 50 * declaredTriangles reader")
    case True
    then have "parseBinary_faces (declaredTriangles reader) reader 84 [] [] = Inl RangeError"
      by (intro parseBinary_faces_fail) auto
    then show ?thesis using True u by (simp add: parseBinary_def declaredTriangles_def)
  next
    case f: False
    then have "declaredTriangles reader = 0 \<or> 84 + 50 * declaredTriangles reader \<le> length reader + 2"
      by auto
    from parseBinary_faces_ok [OF this, of "[]" "[]"]
    obtain vs ns where "parseBinary_faces (declaredTriangles reader) reader 84 [] [] = Inr (vs, ns)"
      by blast
    then show ?thesis using f False u by (simp add: parseBinary_def declaredTriangles_def)
  qed
qed

lemma parseBinary_error: "parseBinary reader = Inl e \<Longrightarrow> e = RangeError"
proof -
  assume a: "parseBinary reader = Inl e"
  show ?thesis
  proof (cases "length reader < 84
     \<or> (0 < declaredTriangles reader \<and> length reader + 2 < 84 + 50 * declaredTriangles reader)")
    case True
    then have "parseBinary reader = Inl RangeError" by (simp only: parseBinary_fails_iff)
    with a show ?thesis by simp
  next
    case False
    then have u: "getUint32 reader 80 = Inr (le32 (reader ! 80) (reader ! 81) (reader ! 82) (reader ! 83))"
      by (simp add: getUint32_def)
    from False have "declaredTriangles reader = 0 \<or> 84 + 50 * declaredTriangles reader \<le> length reader + 2"
      by auto
    from parseBinary_faces_ok [OF this, of "[]" "[]"]
    obtain vs ns where "parseBinary_faces (declaredTriangles reader) reader 84 [] [] = Inr (vs, ns)"
      by blast
    then have "\<exists>g. parseBinary reader = Inr g" using u
      by (simp add: parseBinary_def declaredTriangles_def)
    with a show ?thesis by auto
  qed
qed

lemma parseBinary_counts:
  assumes "parseBinary reader = Inr g"
  shows "length (position g) = 9 * declaredTriangles reader
       \<and> length (normal g) = 9 * declaredTriangles reader"
proof -
  have ok: "\<not> (length reader < 84
     \<or> (0 < declaredTriangles reader \<and> length reader + 2 < 84 + 50 * declaredTriangles reader))"
  proof
    assume "length reader < 84
     \<or> (0 < declaredTriangles reader \<and> length reader + 2 < 84 + 50 * declaredTriangles reader)"
    then have "parseBinary reader = Inl RangeError" by (simp only: parseBinary_fails_iff)
    with assms show False by simp
  qed
  then have u: "getUint32 reader 80 = Inr (le32 (reader ! 80) (reader ! 81) (reader ! 82) (reader ! 83))"
    by (simp add: getUint32_def)
  from ok have "declaredTriangles reader = 0 \<or> 84 + 50 * declaredTriangles reader \<le> length reader + 2"
    by auto
  from parseBinary_faces_ok [OF this, of "[]" "[]"]
  obtain vs ns where "parseBinary_faces (declaredTriangles reader) reader 84 [] [] = Inr (vs, ns)"
    "length vs = 9 * declaredTriangles reader" "length ns = 9 * declaredTriangles reader"
    by auto
  then show ?thesis using u assms
    by (auto simp add: parseBinary_def declaredTriangles_def)
qed

lemma facet_not_vertex:
  "startsWith s (lit ''facet normal'') \<Longrightarrow> \<not> startsWith s (lit ''vertex'')"
  by (cases s) (auto simp: startsWith_def lit_def)

lemma parseASCII_lines_lengths:
  "parseASCII_lines ls cn vs ns = (vs', ns') \<Longrightarrow>
     length vs' = length vs + 3 * vertexLines ls
   \<and> length ns' = length ns
        + 3 * (case cn of None \<Rightarrow> vertexLinesAfterNormal ls | Some n \<Rightarrow> vertexLines ls)"
proof (induction ls arbitrary: cn vs ns)
  case Nil
  then show ?case by (simp add: vertexLines_def vertexLinesAfterNormal_def split: option.splits)
next
  case (Cons l ls)
  show ?case
  proof (cases "isFacetNormalLine l")
    case True
    then have nv: "\<not> isVertexLine l" by (simp add: isVertexLine_def)
    from True Cons.prems obtain n where
      "parseASCII_lines ls (Some n) vs ns = (vs', ns')"
      by (simp add: isFacetNormalLine_def Let_def)
    from Cons.IH [OF this] show ?thesis using True nv
      by (simp add: vertexLines_def vertexLinesAfterNormal_def split: option.splits)
  next
    case nf: False
    show ?thesis
    proof (cases "isVertexLine l")
      case True
      then have sv: "startsWith (trim l) (lit ''vertex'')" by (simp add: isVertexLine_def)
      show ?thesis
      proof (cases cn)
        case None
        from Cons.prems nf sv None obtain v where
          "parseASCII_lines ls None (vs @ v) ns = (vs', ns')" "length v = 3"
          by (simp add: isFacetNormalLine_def Let_def)
        from Cons.IH [OF this(1)] this(2) show ?thesis using nf True None
          by (simp add: vertexLines_def vertexLinesAfterNormal_def)
      next
        case (Some n)
        obtain x y z where n: "n = (x, y, z)" by (cases n) auto
        from Cons.prems nf sv Some n obtain v where
          "parseASCII_lines ls (Some n) (vs @ v) (ns @ [x, y, z]) = (vs', ns')" "length v = 3"
          by (simp add: isFacetNormalLine_def Let_def)
        from Cons.IH [OF this(1)] this(2) show ?thesis using nf True Some
          by (simp add: vertexLines_def vertexLinesAfterNormal_def)
      qed
    next
      case False
      then have "\<not> startsWith (trim l) (lit ''vertex'')" using nf by (simp add: isVertexLine_def)
      with Cons.prems nf have "parseASCII_lines ls cn vs ns = (vs', ns')"
        by (simp add: isFacetNormalLine_def Let_def)
      from Cons.IH [OF this] show ?thesis using nf False
        by (simp add: vertexLines_def vertexLinesAfterNormal_def split: option.splits)
    qed
  qed
qed

lemma vertexLinesAfterNormal_le: "vertexLinesAfterNormal ls \<le> vertexLines ls"
proof -
  have "filter isVertexLine ls =
      filter isVertexLine (takeWhile (\<lambda>l. \<not> isFacetNormalLine l) ls)
      @ filter isVertexLine (dropWhile (\<lambda>l. \<not> isFacetNormalLine l) ls)"
    by (metis filter_append takeWhile_dropWhile_id)
  then show ?thesis by (simp add: vertexLines_def vertexLinesAfterNormal_def)
qed

lemma vertexLinesAfterNormal_eq:
  "vertexLinesAfterNormal ls = vertexLines ls \<longleftrightarrow>
     (\<forall>l \<in> set (takeWhile (\<lambda>l. \<not> isFacetNormalLine l) ls). \<not> isVertexLine l)"
proof -
  have "filter isVertexLine ls =
      filter isVertexLine (takeWhile (\<lambda>l. \<not> isFacetNormalLine l) ls)
      @ filter isVertexLine (dropWhile (\<lambda>l. \<not> isFacetNormalLine l) ls)"
    by (metis filter_append takeWhile_dropWhile_id)
  then have "vertexLines ls = length (filter isVertexLine (takeWhile (\<lambda>l. \<not> isFacetNormalLine l) ls))
      + vertexLinesAfterNormal ls"
    by (simp add: vertexLines_def vertexLinesAfterNormal_def)
  then show ?thesis by (auto simp: filter_empty_conv)
qed

lemma parseASCII_counts:
  "positionCount (parseASCII s) = vertexLines (split_char 10 s)
   \<and> normalCount (parseASCII s) = vertexLinesAfterNormal (split_char 10 s)"
proof -
  obtain vs ns where p: "parseASCII_lines (split_char 10 s) None [] [] = (vs, ns)"
    by (cases "parseASCII_lines (split_char 10 s) None [] []") auto
  from parseASCII_lines_lengths [OF p] show ?thesis
    by (simp add: parseASCII_def p positionCount_def normalCount_def)
qed


lemma zeros_not_solid: "\<not> includes_str (replicate n 0) (lit ''solid'')"
  by (induction n) (auto simp: startsWith_def lit_def)


text \<open>
  A binary file of 132 bytes: a zero header, the count 1, and one facet record without its two
  attribute bytes. The loader reads it without error.
\<close>

lemma one_facet_without_attribute_bytes:
  "\<not> isASCII ascii_platform (replicate 80 0 @ [1, 0, 0, 0] @ replicate 48 0)
   \<and> declaredTriangles (replicate 80 0 @ [1, 0, 0, 0] @ replicate 48 0) = 1
   \<and> length (replicate 80 (0::byte) @ [1, 0, 0, 0] @ replicate 48 0) = 132
   \<and> parseSTL ascii_platform (replicate 80 0 @ [1, 0, 0, 0] @ replicate 48 0)
       = Inr \<lparr> position = replicate 9 (Float32 0), normal = replicate 9 (Float32 0) \<rparr>"
proof -
  define d :: "byte list" where "d = replicate 80 0 @ [1, 0, 0, 0] @ replicate 48 0"
  have a: "\<not> isASCII ascii_platform d"
    by (simp add: d_def isASCII_def ascii_platform_def zeros_not_solid)
  have l: "length d = 132" by (simp add: d_def)
  have n: "\<And>i. i < 132 \<Longrightarrow> d ! i = (if i = 80 then 1 else 0)"
    by (auto simp: d_def nth_append nth_Cons split: nat.splits)
  have le: "le32 0 0 0 0 = 0" "le32 1 0 0 0 = 1" by (simp_all add: le32_def)
  have t: "declaredTriangles d = 1"
    by (simp add: declaredTriangles_def n le)
  have u: "getUint32 d 80 = Inr 1"
    by (simp add: getUint32_def n le l)
  have f: "\<And>off. 84 \<le> off \<Longrightarrow> off + 4 \<le> 132 \<Longrightarrow> getFloat32 d off = Inr (Float32 0)"
    by (simp add: getFloat32_def getUint32_def n le l)
  have v: "\<And>off. 84 \<le> off \<Longrightarrow> off + 12 \<le> 132 \<Longrightarrow>
      getVector d off = Inr [Float32 0, Float32 0, Float32 0]"
    by (simp add: getVector_def f)
  have p: "parseBinary_faces 1 d 84 [] [] = Inr (replicate 9 (Float32 0), replicate 9 (Float32 0))"
    by (simp add: v numeral_eq_Suc)
  have "parseSTL ascii_platform d
       = Inr \<lparr> position = replicate 9 (Float32 0), normal = replicate 9 (Float32 0) \<rparr>"
    using a by (simp add: parseSTL_def parseBinary_def u p del: parseBinary_faces.simps One_nat_def)
  then show ?thesis using a t l unfolding d_def by blast
qed

section \<open>C9: format detection\<close>

text \<open>
  C9. For every input buffer the loader takes the ASCII path exactly when the lower-cased
  text decoding of the first 80 bytes has \<open>solid\<close> as a contiguous substring, and the binary
  path otherwise; nothing else decides the path.
\<close>

theorem parseSTL_detection:
  "(isASCII P data \<longleftrightarrow> sublist (lit ''solid'') (toLowerCase P (decode P (take 80 data))))
   \<and> parseSTL P data =
       (if sublist (lit ''solid'') (toLowerCase P (decode P (take 80 data)))
        then Inr (parseASCII (decode P data))
        else parseBinary data)"
  by (simp add: parseSTL_def isASCII_def includes_str_sublist)

section \<open>C2: truncated binary files\<close>

text \<open>
  C2, the claim as stated fails. A binary file with declared count 1 and 132 bytes is shorter
  than \<open>84 + 50 * 1 = 134\<close>, and the loader returns a geometry: the two attribute bytes that
  end a record are skipped, never read.
\<close>

theorem parse_binary_short_by_two_counterexample:
  "length (replicate 80 (0::byte) @ [1, 0, 0, 0] @ replicate 48 0)
     < 84 + 50 * declaredTriangles (replicate 80 0 @ [1, 0, 0, 0] @ replicate 48 0)
   \<and> \<not> isASCII ascii_platform (replicate 80 0 @ [1, 0, 0, 0] @ replicate 48 0)
   \<and> parseSTL ascii_platform (replicate 80 0 @ [1, 0, 0, 0] @ replicate 48 0)
       = Inr \<lparr> position = replicate 9 (Float32 0), normal = replicate 9 (Float32 0) \<rparr>"
  using one_facet_without_attribute_bytes by simp

text \<open>
  C2, amended. For every buffer classified as binary, the loader fails exactly when the
  buffer has fewer than 84 bytes, or the declared count \<open>N\<close> is positive and the buffer has
  fewer than \<open>84 + 50 * N - 2\<close> bytes; the failure is the \<open>RangeError\<close> of the \<open>DataView\<close> read
  that leaves the buffer, and the loader fails in no other way.
\<close>

theorem parse_binary_truncated:
  assumes "\<not> isASCII P data"
  shows "(parseSTL P data = Inl RangeError \<longleftrightarrow>
            length data < 84
            \<or> (0 < declaredTriangles data \<and> length data + 2 < 84 + 50 * declaredTriangles data))
       \<and> (\<forall>e. parseSTL P data = Inl e \<longrightarrow> e = RangeError)"
  using assms parseBinary_fails_iff [of data] parseBinary_error [of data]
  by (simp add: parseSTL_def)

text \<open>Witness for C2: the file of 12 zero bytes is binary and fails with \<open>RangeError\<close>.\<close>

theorem parse_binary_truncated_witness:
  "\<not> isASCII ascii_platform (replicate 12 0)
   \<and> length (replicate 12 (0::byte)) < 84
   \<and> parseSTL ascii_platform (replicate 12 0) = Inl RangeError"
proof -
  have h: "\<not> isASCII ascii_platform (replicate 12 0)"
    by (simp add: isASCII_def ascii_platform_def zeros_not_solid)
  from parse_binary_truncated [OF h] h show ?thesis by simp
qed

section \<open>C1: geometry counts\<close>

text \<open>
  C1, the claim as stated fails. The ASCII file \<open>solid\<close>, newline, \<open>vertex 0 0 0\<close> has a vertex
  line before any \<open>facet normal\<close> line: the loader stores one position and no normal.
\<close>

theorem parse_vertex_before_normal_counterexample:
  "isASCII ascii_platform (bytes_of ''solid\<newline>vertex 0 0 0'')
   \<and> parseSTL ascii_platform (bytes_of ''solid\<newline>vertex 0 0 0'')
       = Inr \<lparr> position = [ParseFloat (Some (lit ''0'')), ParseFloat (Some (lit ''0'')),
                             ParseFloat (Some (lit ''0''))],
                normal = [] \<rparr>
   \<and> positionCount \<lparr> position = [ParseFloat (Some (lit ''0'')), ParseFloat (Some (lit ''0'')),
                                    ParseFloat (Some (lit ''0''))],
                       normal = [] \<rparr> = 1
   \<and> normalCount \<lparr> position = [ParseFloat (Some (lit ''0'')), ParseFloat (Some (lit ''0'')),
                                  ParseFloat (Some (lit ''0''))],
                     normal = [] \<rparr> = 0"
proof -
  have d: "decode ascii_platform (bytes_of ''solid\<newline>vertex 0 0 0'')
             = lit ''solid\<newline>vertex 0 0 0''"
    by (simp add: ascii_platform_def bytes_of_def lit_def)
  have a: "isASCII ascii_platform (bytes_of ''solid\<newline>vertex 0 0 0'')"
    by (simp add: isASCII_def ascii_platform_def bytes_of_def lit_def startsWith_def)
  have s: "split_char 10 (lit ''solid\<newline>vertex 0 0 0'') = [lit ''solid'', lit ''vertex 0 0 0'']"
    by (simp add: lit_def)
  have t: "trim (lit ''solid'') = lit ''solid''" "trim (lit ''vertex 0 0 0'') = lit ''vertex 0 0 0''"
    by (simp_all add: lit_def trim_def isWhiteSpace_def)
  have w: "split_ws (lit ''vertex 0 0 0'') = [lit ''vertex'', lit ''0'', lit ''0'', lit ''0'']"
    by (simp add: lit_def isWhiteSpace_def)
  have st: "\<not> startsWith (lit ''solid'') (lit ''facet normal'')"
    "\<not> startsWith (lit ''solid'') (lit ''vertex'')"
    "\<not> startsWith (lit ''vertex 0 0 0'') (lit ''facet normal'')"
    "startsWith (lit ''vertex 0 0 0'') (lit ''vertex'')"
    by (simp_all add: lit_def startsWith_def)
  have p: "parseASCII (lit ''solid\<newline>vertex 0 0 0'')
      = \<lparr> position = [ParseFloat (Some (lit ''0'')), ParseFloat (Some (lit ''0'')),
                             ParseFloat (Some (lit ''0''))],
                normal = [] \<rparr>"
    by (simp add: parseASCII_def s t w st parseFloat_at_def)
  show ?thesis
    using a by (simp add: parseSTL_def d p positionCount_def normalCount_def)
qed

text \<open>
  C1, amended. For every geometry the loader returns: from a binary input, the number of
  positions is 3 times the declared triangle count and the number of normals equals the
  number of positions; from an ASCII input, the number of positions is the number of vertex
  lines, the number of normals is the number of vertex lines after the first \<open>facet normal\<close>
  line, so there are at most as many normals as positions, with equality exactly when no
  vertex line comes before the first \<open>facet normal\<close> line.
\<close>

theorem parse_counts:
  assumes "parseSTL P data = Inr g"
  shows "if isASCII P data
         then positionCount g = vertexLines (split_char 10 (decode P data))
            \<and> normalCount g = vertexLinesAfterNormal (split_char 10 (decode P data))
            \<and> normalCount g \<le> positionCount g
            \<and> (normalCount g = positionCount g \<longleftrightarrow>
                 (\<forall>l \<in> set (takeWhile (\<lambda>l. \<not> isFacetNormalLine l) (split_char 10 (decode P data))).
                    \<not> isVertexLine l))
         else positionCount g = 3 * declaredTriangles data
            \<and> normalCount g = positionCount g"
proof (cases "isASCII P data")
  case True
  with assms have g: "g = parseASCII (decode P data)" by (simp add: parseSTL_def)
  show ?thesis
    using True parseASCII_counts [of "decode P data"]
      vertexLinesAfterNormal_le [of "split_char 10 (decode P data)"]
      vertexLinesAfterNormal_eq [of "split_char 10 (decode P data)"]
    by (simp add: g)
next
  case False
  with assms have "parseBinary data = Inr g" by (simp add: parseSTL_def)
  from parseBinary_counts [OF this] show ?thesis
    using False by (simp add: positionCount_def normalCount_def)
qed

text \<open>Witness for C1: the binary file with one facet.\<close>

theorem parse_counts_witness:
  "parseSTL ascii_platform (replicate 80 0 @ [1, 0, 0, 0] @ replicate 48 0)
       = Inr \<lparr> position = replicate 9 (Float32 0), normal = replicate 9 (Float32 0) \<rparr>
   \<and> \<not> isASCII ascii_platform (replicate 80 0 @ [1, 0, 0, 0] @ replicate 48 0)
   \<and> positionCount \<lparr> position = replicate 9 (Float32 0), normal = replicate 9 (Float32 0) \<rparr>
       = 3 * declaredTriangles (replicate 80 0 @ [1, 0, 0, 0] @ replicate 48 0)
   \<and> normalCount \<lparr> position = replicate 9 (Float32 0), normal = replicate 9 (Float32 0) \<rparr>
       = positionCount \<lparr> position = replicate 9 (Float32 0), normal = replicate 9 (Float32 0) \<rparr>"
proof -
  have h: "parseSTL ascii_platform (replicate 80 0 @ [1, 0, 0, 0] @ replicate 48 0)
       = Inr \<lparr> position = replicate 9 (Float32 0), normal = replicate 9 (Float32 0) \<rparr>"
    and a: "\<not> isASCII ascii_platform (replicate 80 0 @ [1, 0, 0, 0] @ replicate 48 0)"
    using one_facet_without_attribute_bytes by blast+
  from parse_counts [OF h] a h show ?thesis by simp
qed

section \<open>C3: the adaptive scale across bucket boundaries\<close>

lemma PG_tiny: "0 < x \<Longrightarrow> x < 1 / 10 \<Longrightarrow> PreviewGenerator_calculateAdaptiveScale x = 50"
  by (simp add: PreviewGenerator_calculateAdaptiveScale_def)

lemma PG_small:
  "1 / 10 \<le> x \<Longrightarrow> x < 1 \<Longrightarrow> PreviewGenerator_calculateAdaptiveScale x = 50 - 35 * x"
  by (simp add: PreviewGenerator_calculateAdaptiveScale_def max_def)

lemma PG_medium:
  assumes "1 \<le> x" "x < 10"
  shows "PreviewGenerator_calculateAdaptiveScale x = 3 + (10 - x) * 4 / 3"
proof -
  have "1 / 2 \<le> 3 + (10 - x) / 9 * 12" using assms by (simp add: field_simps)
  then have "max (3 + (10 - x) / 9 * 12) (1 / 2) = 3 + (10 - x) / 9 * 12" by (rule max_absorb1)
  then show ?thesis using assms by (simp add: PreviewGenerator_calculateAdaptiveScale_def)
qed

lemma PG_large:
  assumes "10 \<le> x" "x < 100"
  shows "PreviewGenerator_calculateAdaptiveScale x = 1 + (100 - x) / 45"
proof -
  have "1 / 2 \<le> 1 + (100 - x) / 90 * 2" using assms by (simp add: field_simps)
  then have "max (1 + (100 - x) / 90 * 2) (1 / 2) = 1 + (100 - x) / 90 * 2" by (rule max_absorb1)
  then show ?thesis using assms by (simp add: PreviewGenerator_calculateAdaptiveScale_def)
qed

lemma PG_huge: "100 \<le> x \<Longrightarrow> PreviewGenerator_calculateAdaptiveScale x = max (1 / 2) (100 / x)"
  by (simp add: PreviewGenerator_calculateAdaptiveScale_def)

lemma PG_huge_le: "100 \<le> x \<Longrightarrow> PreviewGenerator_calculateAdaptiveScale x \<le> 1"
  by (simp add: PG_huge)

lemma PG_huge_mono:
  assumes "100 \<le> x" "x \<le> y"
  shows "PreviewGenerator_calculateAdaptiveScale y \<le> PreviewGenerator_calculateAdaptiveScale x"
proof -
  have "100 / y \<le> 100 / x" using assms by (simp add: frac_le)
  then have "max (1 / 2) (100 / y) \<le> max (1 / 2) (100 / x)" by (rule max.mono [OF order_refl])
  then show ?thesis using assms by (simp only: PG_huge [of x] PG_huge [of y] order_trans [OF assms])
qed

lemma PreviewGenerator_scale_nonincreasing:
  assumes "0 < x" "x \<le> y"
  shows "PreviewGenerator_calculateAdaptiveScale y \<le> PreviewGenerator_calculateAdaptiveScale x"
  using assms PG_tiny [of x] PG_tiny [of y] PG_small [of x] PG_small [of y]
    PG_medium [of x] PG_medium [of y] PG_large [of x] PG_large [of y]
    PG_huge_le [of y] PG_huge_mono [of x y]
  by argo

lemma MV_tiny: "0 < x \<Longrightarrow> x < 1 / 10 \<Longrightarrow> Model3DViewer_calculateAdaptiveScale x = 30"
  by (simp add: Model3DViewer_calculateAdaptiveScale_def)

lemma MV_small:
  "1 / 10 \<le> x \<Longrightarrow> x < 1 \<Longrightarrow> Model3DViewer_calculateAdaptiveScale x = 30 - 20 * x"
  by (simp add: Model3DViewer_calculateAdaptiveScale_def max_def)

lemma MV_medium:
  assumes "1 \<le> x" "x < 10"
  shows "Model3DViewer_calculateAdaptiveScale x = 2 + (10 - x) * 8 / 9"
proof -
  have "3 / 10 \<le> 2 + (10 - x) / 9 * 8" using assms by (simp add: field_simps)
  then have "max (2 + (10 - x) / 9 * 8) (3 / 10) = 2 + (10 - x) / 9 * 8" by (rule max_absorb1)
  then show ?thesis using assms by (simp add: Model3DViewer_calculateAdaptiveScale_def)
qed

lemma MV_large:
  assumes "10 \<le> x" "x < 100"
  shows "Model3DViewer_calculateAdaptiveScale x = 4 / 5 + (100 - x) / 75"
proof -
  have "3 / 10 \<le> 8 / 10 + (100 - x) / 90 * (12 / 10)" using assms by (simp add: field_simps)
  then have "max (8 / 10 + (100 - x) / 90 * (12 / 10)) (3 / 10) = 8 / 10 + (100 - x) / 90 * (12 / 10)"
    by (rule max_absorb1)
  then show ?thesis using assms by (simp add: Model3DViewer_calculateAdaptiveScale_def)
qed

lemma MV_huge: "100 \<le> x \<Longrightarrow> Model3DViewer_calculateAdaptiveScale x = max (3 / 10) (80 / x)"
  by (simp add: Model3DViewer_calculateAdaptiveScale_def)

lemma MV_huge_le:
  assumes "100 \<le> x"
  shows "Model3DViewer_calculateAdaptiveScale x \<le> 4 / 5"
proof -
  have "80 / x \<le> 80 / 100" using assms by (intro divide_left_mono) auto
  then have "max (3 / 10) (80 / x) \<le> 4 / 5" by simp
  then show ?thesis by (simp only: MV_huge [OF assms])
qed

lemma MV_huge_mono:
  assumes "100 \<le> x" "x \<le> y"
  shows "Model3DViewer_calculateAdaptiveScale y \<le> Model3DViewer_calculateAdaptiveScale x"
proof -
  have "80 / y \<le> 80 / x" using assms by (simp add: frac_le)
  then have "max (3 / 10) (80 / y) \<le> max (3 / 10) (80 / x)" by (rule max.mono [OF order_refl])
  then show ?thesis using assms by (simp only: MV_huge [of x] MV_huge [of y] order_trans [OF assms])
qed

lemma Model3DViewer_scale_nonincreasing:
  assumes "0 < x" "x \<le> y"
  shows "Model3DViewer_calculateAdaptiveScale y \<le> Model3DViewer_calculateAdaptiveScale x"
  using assms MV_tiny [of x] MV_tiny [of y] MV_small [of x] MV_small [of y]
    MV_medium [of x] MV_medium [of y] MV_large [of x] MV_large [of y]
    MV_huge_le [of y] MV_huge_mono [of x y]
  by argo

text \<open>
  At 1, 10 and 100 the formula of the bucket below takes the value of the bucket above; at
  \<open>0.1\<close> it does not: the constant 50 (30 in the viewer) of the bucket below meets
  \<open>15 + 0.9 * 35 = 46.5\<close> (respectively \<open>10 + 0.9 * 20 = 28\<close>).
\<close>

lemma adaptive_scale_values_at_boundaries:
  "PreviewGenerator_calculateAdaptiveScale 1 = 15 + (1 - 1) * 35"
  "PreviewGenerator_calculateAdaptiveScale 10 = 3 + (10 - 10) / 9 * 12"
  "PreviewGenerator_calculateAdaptiveScale 100 = 1 + (100 - 100) / 90 * 2"
  "Model3DViewer_calculateAdaptiveScale 1 = 10 + (1 - 1) * 20"
  "Model3DViewer_calculateAdaptiveScale 10 = 2 + (10 - 10) / 9 * 8"
  "Model3DViewer_calculateAdaptiveScale 100 = 8 / 10 + (100 - 100) / 90 * (12 / 10)"
  by (simp_all add: PG_medium PG_large PG_huge MV_medium MV_large MV_huge)

lemma adaptive_scale_values_at_tenth:
  "PreviewGenerator_calculateAdaptiveScale (1 / 10) = 93 / 2"
  "PreviewGenerator_calculateAdaptiveScale (99 / 1000) = 50"
  "Model3DViewer_calculateAdaptiveScale (1 / 10) = 28"
  "Model3DViewer_calculateAdaptiveScale (99 / 1000) = 30"
  by (simp_all add: PG_small PG_tiny MV_small MV_tiny)

lemma jump_below:
  fixes f :: "real \<Rightarrow> real"
  assumes below: "\<And>x. 0 < x \<Longrightarrow> x < b \<Longrightarrow> f x = c" and at: "f b \<noteq> c" and b: "0 < b"
  shows "\<not> isCont f b"
proof
  assume "isCont f b"
  moreover have "0 < \<bar>f b - c\<bar>" using at by simp
  ultimately obtain d where d: "0 < d"
    and cl: "\<And>x. x \<noteq> b \<Longrightarrow> dist x b < d \<Longrightarrow> dist (f x) (f b) < \<bar>f b - c\<bar>"
    unfolding isCont_def LIM_def by meson
  define y where "y = b - min (d / 2) (b / 2)"
  have y: "0 < y" "y < b" "dist y b < d"
    using d b by (auto simp: y_def dist_real_def min_def)
  then have "y \<noteq> b" by simp
  from cl [OF this y(3)] show False
    by (simp add: below [OF y(1) y(2)] dist_real_def)
qed

lemma isCont_glue:
  fixes f g h :: "real \<Rightarrow> real"
  assumes ab: "a < b" and bc: "b < c"
    and fg: "\<And>x. a < x \<Longrightarrow> x < b \<Longrightarrow> f x = g x"
    and fh: "\<And>x. b \<le> x \<Longrightarrow> x < c \<Longrightarrow> f x = h x"
    and gh: "g b = h b" and cg: "isCont g b" and ch: "isCont h b"
  shows "isCont f b"
  unfolding isCont_def LIM_def
proof (intro allI impI)
  fix r :: real
  assume r: "0 < r"
  from cg r obtain s1 where s1: "0 < s1"
    "\<And>x. x \<noteq> b \<Longrightarrow> dist x b < s1 \<Longrightarrow> dist (g x) (g b) < r"
    unfolding isCont_def LIM_def by meson
  from ch r obtain s2 where s2: "0 < s2"
    "\<And>x. x \<noteq> b \<Longrightarrow> dist x b < s2 \<Longrightarrow> dist (h x) (h b) < r"
    unfolding isCont_def LIM_def by meson
  define s where "s = min (min s1 s2) (min (b - a) (c - b))"
  have s: "0 < s" "s \<le> s1" "s \<le> s2" "s \<le> b - a" "s \<le> c - b"
    using s1(1) s2(1) ab bc by (simp_all add: s_def)
  have fb: "f b = h b" using fh [of b] bc by simp
  have "\<forall>x. x \<noteq> b \<and> dist x b < s \<longrightarrow> dist (f x) (f b) < r"
  proof (intro allI impI)
    fix x
    assume x: "x \<noteq> b \<and> dist x b < s"
    then have d: "\<bar>x - b\<bar> < s" by (simp add: dist_real_def)
    show "dist (f x) (f b) < r"
    proof (cases "x < b")
      case True
      with d s have "a < x" by linarith
      from fg [OF this True] have "f x = g x" .
      moreover have "dist (g x) (g b) < r" using s1(2) [of x] x s by simp
      ultimately show ?thesis by (simp add: fb gh)
    next
      case False
      with d s have "b \<le> x" "x < c" by linarith+
      from fh [OF this] have "f x = h x" .
      moreover have "dist (h x) (h b) < r" using s2(2) [of x] x s by simp
      ultimately show ?thesis by (simp add: fb)
    qed
  qed
  with s(1) show "\<exists>s>0. \<forall>x. x \<noteq> b \<and> dist x b < s \<longrightarrow> dist (f x) (f b) < r" by blast
qed

lemma isCont_max_const_inverse:
  fixes k m :: real
  shows "isCont (\<lambda>x. max k (m / x)) 100"
  by (intro continuous_intros) simp

lemma PreviewGenerator_scale_continuous:
  "isCont PreviewGenerator_calculateAdaptiveScale 1"
  "isCont PreviewGenerator_calculateAdaptiveScale 10"
  "isCont PreviewGenerator_calculateAdaptiveScale 100"
proof -
  show "isCont PreviewGenerator_calculateAdaptiveScale 1"
    by (rule isCont_glue [where a = "1 / 10" and c = 10 and g = "\<lambda>x. 50 - 35 * x"
          and h = "\<lambda>x. 3 + (10 - x) * 4 / 3"])
       (simp_all add: PG_small PG_medium)
  show "isCont PreviewGenerator_calculateAdaptiveScale 10"
    by (rule isCont_glue [where a = 1 and c = 100 and g = "\<lambda>x. 3 + (10 - x) * 4 / 3"
          and h = "\<lambda>x. 1 + (100 - x) / 45"])
       (simp_all add: PG_medium PG_large)
  show "isCont PreviewGenerator_calculateAdaptiveScale 100"
    by (rule isCont_glue [where a = 10 and c = 200 and g = "\<lambda>x. 1 + (100 - x) / 45"
          and h = "\<lambda>x. max (1 / 2) (100 / x)"])
       (simp_all add: PG_large PG_huge isCont_max_const_inverse)
qed

lemma Model3DViewer_scale_continuous:
  "isCont Model3DViewer_calculateAdaptiveScale 1"
  "isCont Model3DViewer_calculateAdaptiveScale 10"
  "isCont Model3DViewer_calculateAdaptiveScale 100"
proof -
  show "isCont Model3DViewer_calculateAdaptiveScale 1"
    by (rule isCont_glue [where a = "1 / 10" and c = 10 and g = "\<lambda>x. 30 - 20 * x"
          and h = "\<lambda>x. 2 + (10 - x) * 8 / 9"])
       (simp_all add: MV_small MV_medium)
  show "isCont Model3DViewer_calculateAdaptiveScale 10"
    by (rule isCont_glue [where a = 1 and c = 100 and g = "\<lambda>x. 2 + (10 - x) * 8 / 9"
          and h = "\<lambda>x. 4 / 5 + (100 - x) / 75"])
       (simp_all add: MV_medium MV_large)
  show "isCont Model3DViewer_calculateAdaptiveScale 100"
    by (rule isCont_glue [where a = 10 and c = 200 and g = "\<lambda>x. 4 / 5 + (100 - x) / 75"
          and h = "\<lambda>x. max (3 / 10) (80 / x)"])
       (simp_all add: MV_large MV_huge isCont_max_const_inverse)
qed

text \<open>
  C3. The claim asks for continuity at the boundary \<open>0.1\<close>. Neither variant is continuous
  there: the values below \<open>0.1\<close> are the constant of the very-tiny bucket, and the value at
  \<open>0.1\<close> is lower by 3.5 (still preview) and by 2 (viewer). At 1, 10 and 100 both variants
  are continuous (\<open>PreviewGenerator_scale_continuous\<close>, \<open>Model3DViewer_scale_continuous\<close>),
  and both are non-increasing on the positive inputs (\<open>PreviewGenerator_scale_nonincreasing\<close>,
  \<open>Model3DViewer_scale_nonincreasing\<close>).
\<close>

theorem adaptive_scale_jump_at_tenth:
  "\<not> isCont PreviewGenerator_calculateAdaptiveScale (1 / 10)
   \<and> \<not> isCont Model3DViewer_calculateAdaptiveScale (1 / 10)"
proof
  have "PreviewGenerator_calculateAdaptiveScale (1 / 10) \<noteq> 50" by (simp add: PG_small)
  then show "\<not> isCont PreviewGenerator_calculateAdaptiveScale (1 / 10)"
    by (intro jump_below [where c = 50] PG_tiny) simp_all
  have "Model3DViewer_calculateAdaptiveScale (1 / 10) \<noteq> 30" by (simp add: MV_small)
  then show "\<not> isCont Model3DViewer_calculateAdaptiveScale (1 / 10)"
    by (intro jump_below [where c = 30] MV_tiny) simp_all
qed


section \<open>The cache and the hook: helper lemmas\<close>






lemma generatePreview_call_after_render:
  "generatePreview_call pr True w = (False, w)"
  by (simp add: generatePreview_call_def)

section \<open>C4: time to live of a cache entry\<close>




section \<open>C10: clearing one slot\<close>



section \<open>C7: failed requests\<close>



section \<open>C6: two calls of the same closure\<close>

text \<open>
  C6. The guard of \<open>generatePreview\<close> reads the \<open>isGenerating\<close> that its closure captured.
  Two calls of the function that one render returned both read \<open>false\<close>: the first call
  starts a session and sets the state to generating, and the second call, made while the
  first is in flight, starts a second session. A function from a later render, which
  captured \<open>true\<close>, starts nothing (\<open>generatePreview_call_after_render\<close>).
\<close>

theorem second_call_starts_second_session:
  "fst (generatePreview_call
          \<lparr> modelUrl = lit ''/models/a.stl'', cacheKey = None, previewOptions = None \<rparr> False
          \<lparr> hook = \<lparr> previewUrl = None, isGenerating = False, error = None \<rparr>,
            localStorage = Map.empty, sessions = 0 \<rparr>)
   \<and> isGenerating (hook (snd (generatePreview_call
          \<lparr> modelUrl = lit ''/models/a.stl'', cacheKey = None, previewOptions = None \<rparr> False
          \<lparr> hook = \<lparr> previewUrl = None, isGenerating = False, error = None \<rparr>,
            localStorage = Map.empty, sessions = 0 \<rparr>)))
   \<and> fst (generatePreview_call
          \<lparr> modelUrl = lit ''/models/a.stl'', cacheKey = None, previewOptions = None \<rparr> False
          (snd (generatePreview_call
            \<lparr> modelUrl = lit ''/models/a.stl'', cacheKey = None, previewOptions = None \<rparr> False
            \<lparr> hook = \<lparr> previewUrl = None, isGenerating = False, error = None \<rparr>,
              localStorage = Map.empty, sessions = 0 \<rparr>)))
   \<and> sessions (snd (generatePreview_call
          \<lparr> modelUrl = lit ''/models/a.stl'', cacheKey = None, previewOptions = None \<rparr> False
          (snd (generatePreview_call
            \<lparr> modelUrl = lit ''/models/a.stl'', cacheKey = None, previewOptions = None \<rparr> False
            \<lparr> hook = \<lparr> previewUrl = None, isGenerating = False, error = None \<rparr>,
              localStorage = Map.empty, sessions = 0 \<rparr>)))) = 2"
  by (simp add: generatePreview_call_def lit_def)


section \<open>The cache key: helper lemmas\<close>
































lemma quoteJSONString_hd: "quoteJSONString s = 34 # tl (quoteJSONString s)"
  by (simp add: quoteJSONString_def)













section \<open>C5: the cache key\<close>




end
